theory Spec2Isabelle
  imports Complex_Main "HOL-Library.Signed_Division"
begin

section \<open>The metronome's audio engine (src/services/AudioEngine.ts)\<close>

text \<open>
  The class \<open>AudioEngine\<close> becomes a record of its fields together with the part of the
  host it talks to: the pending \<open>window.setTimeout\<close> poll tasks, the next timer handle,
  and the console. Every method is a function from state to state.

  Conventions of the embedding.
  \<^item> A JavaScript \<open>number\<close> holding a time is an exact rational or \<open>+Infinity\<close>
    (\<open>jsnum\<close>), and the tempo is an exact rational; the rounding of IEEE-754 doubles is
    not modelled. \<open>60.0 / 0\<close> is \<open>+Infinity\<close>, as in JavaScript.
  \<^item> \<open>audioCtx.currentTime\<close> is an input: each method that reads the clock takes the
    reading \<open>now\<close> as an argument. The reading does not change during one task of the
    event loop.
  \<^item> \<open>currentBeat\<close> is a natural number, \<open>beatsPerMeasure\<close> an integer.
  \<^item> The host decides when a timer task runs: \<open>setTimeout\<close> only records the task as
    pending, and the event \<open>Timeout\<close> runs it.
  \<^item> Decoding (\<open>fetch\<close>, \<open>arrayBuffer\<close> and \<open>decodeAudioData\<close>) is a parameter \<open>dec\<close>;
    \<open>Inl e\<close> is the exception \<open>e\<close> thrown by one of them. \<open>setCustomSounds\<close> is taken as
    one atomic step.
\<close>

subsection \<open>Data\<close>

datatype SoundProfile = DIGITAL | WOOD | METALLIC | CUSTOM

datatype AudioBuffer = AudioBuffer nat

datatype callback = Callback nat

datatype jsnum = Fin rat | PosInf

fun js_add :: "jsnum \<Rightarrow> jsnum \<Rightarrow> jsnum" where
  "js_add (Fin a) (Fin b) = Fin (a + b)"
| "js_add _ _ = PosInf"

fun js_less :: "jsnum \<Rightarrow> jsnum \<Rightarrow> bool" where
  "js_less (Fin a) (Fin b) = (a < b)"
| "js_less (Fin a) PosInf = True"
| "js_less PosInf _ = False"

text \<open>\<open>a / b\<close> for a positive dividend \<open>a\<close> (the source divides \<open>60.0\<close> only).\<close>

definition js_div :: "rat \<Rightarrow> rat \<Rightarrow> jsnum" where
  "js_div a b = (if b = 0 then PosInf else Fin (a / b))"

text \<open>
  \<open>a % b\<close> on integers: the remainder takes the sign of the dividend, and the result
  is \<open>NaN\<close> (here \<open>None\<close>) when the divisor is zero.
\<close>

definition js_rem :: "int \<Rightarrow> int \<Rightarrow> int option" where
  "js_rem a b = (if b = 0 then None else Some (a smod b))"

text \<open>
  What one beat hands to the audio subsystem. Each constructor carries the parameters
  that depend on the accent: the tone frequencies, and for \<open>MetallicTone\<close> the gain and
  the decay time too.
\<close>

datatype sound =
    BufferSource AudioBuffer
  | DigitalTone nat
  | WoodTone nat
  | MetallicTone nat nat rat rat

text \<open>
  The trace of one call of \<open>scheduleNote\<close>: the arguments, the local \<open>isAccent\<close>, the
  sound started at \<open>time\<close>, the clock reading during the call, and the notification
  timer (beat, delay in ms) set when \<open>onBeat\<close> is present. The noise burst of the Wood
  profile (\<open>createNoiseBuffer\<close>, random samples) is not part of the trace.
\<close>

record scheduled_note =
  beat :: nat
  time :: jsnum
  accent :: bool
  snd_out :: sound
  handedAt :: rat
  notify :: "(nat \<times> jsnum) option"

record engine =
  audioCtx :: bool
  nextNoteTime :: jsnum
  timerID :: "nat option"
  bpm :: rat
  beatsPerMeasure :: int
  currentBeat :: nat
  profile :: SoundProfile
  onBeat :: "callback option"
  customAccentBuffer :: "AudioBuffer option"
  customBeatBuffer :: "AudioBuffer option"
  pending :: "nat list"
  fresh :: nat
  console :: "(string \<times> string) list"

definition lookahead :: rat where
  "lookahead = 25"

definition scheduleAheadTime :: rat where
  "scheduleAheadTime = 1 / 10"

text \<open>The state after \<open>new AudioEngine()\<close>; timer handles are positive.\<close>

definition init :: engine where
  "init = \<lparr> audioCtx = False, nextNoteTime = Fin 0, timerID = None, bpm = 100,
            beatsPerMeasure = 4, currentBeat = 0, profile = DIGITAL, onBeat = None,
            customAccentBuffer = None, customBeatBuffer = None,
            pending = [], fresh = 1, console = [] \<rparr>"

subsection \<open>Methods\<close>

definition initAudio :: "engine \<Rightarrow> engine" where
  "initAudio s = (if \<not> audioCtx s then s\<lparr>audioCtx := True\<rparr> else s)"

definition setParams ::
  "rat \<Rightarrow> int \<Rightarrow> SoundProfile \<Rightarrow> callback option \<Rightarrow> engine \<Rightarrow> engine" where
  "setParams b m p cb s = s\<lparr>bpm := b, beatsPerMeasure := m, profile := p, onBeat := cb\<rparr>"

text \<open>The \<open>try\<close> block returns the decoded buffer; the \<open>catch\<close> logs and returns \<open>null\<close>.\<close>

definition decodeBase64 ::
  "(string \<Rightarrow> string + AudioBuffer) \<Rightarrow> string \<Rightarrow> engine \<Rightarrow> AudioBuffer option \<times> engine" where
  "decodeBase64 dec base64 s =
     (if \<not> audioCtx s then (None, s)
      else case dec base64 of
             Inr b \<Rightarrow> (Some b, s)
           | Inl e \<Rightarrow>
               (None, s\<lparr>console := console s @ [(''Failed to decode custom sound'', e)]\<rparr>))"

text \<open>A string is truthy when it is neither \<open>null\<close> nor empty.\<close>

fun truthy :: "string option \<Rightarrow> string option" where
  "truthy None = None"
| "truthy (Some []) = None"
| "truthy (Some d) = Some d"

definition setCustomSounds ::
  "(string \<Rightarrow> string + AudioBuffer) \<Rightarrow> string option \<Rightarrow> string option \<Rightarrow> engine \<Rightarrow> engine" where
  "setCustomSounds dec accentData beatData s0 =
     (let s1 = initAudio s0 in
      if \<not> audioCtx s1 then s1
      else
        let s2 = (case truthy accentData of
                    Some d \<Rightarrow> (let (b, t) = decodeBase64 dec d s1 in t\<lparr>customAccentBuffer := b\<rparr>)
                  | None \<Rightarrow> s1\<lparr>customAccentBuffer := None\<rparr>)
        in (case truthy beatData of
              Some d \<Rightarrow> (let (b, t) = decodeBase64 dec d s2 in t\<lparr>customBeatBuffer := b\<rparr>)
            | None \<Rightarrow> s2\<lparr>customBeatBuffer := None\<rparr>))"

definition isAccent :: "nat \<Rightarrow> int \<Rightarrow> bool" where
  "isAccent beatNumber m = (js_rem (int beatNumber) m = Some 0)"

definition playDigital :: "bool \<Rightarrow> sound" where
  "playDigital acc = DigitalTone (if acc then 1000 else 600)"

text \<open>The \<open>switch\<close> over the profile.\<close>

fun render :: "SoundProfile \<Rightarrow> bool \<Rightarrow> AudioBuffer option \<Rightarrow> AudioBuffer option \<Rightarrow> sound" where
  "render CUSTOM acc ab bb =
     (case (if acc then ab else bb) of
        Some buffer \<Rightarrow> BufferSource buffer
      | None \<Rightarrow> playDigital acc)"
| "render METALLIC acc ab bb =
     (if acc then MetallicTone 2000 3200 (6 / 10) (3 / 10)
      else MetallicTone 1500 2400 (3 / 10) (5 / 100))"
| "render WOOD acc ab bb = WoodTone (if acc then 1000 else 700)"
| "render DIGITAL acc ab bb = playDigital acc"

text \<open>\<open>Math.max(0, (time - currentTime) * 1000)\<close>.\<close>

fun notify_delay :: "jsnum \<Rightarrow> rat \<Rightarrow> jsnum" where
  "notify_delay (Fin t) now = Fin (max 0 ((t - now) * 1000))"
| "notify_delay PosInf now = PosInf"

definition scheduleNote :: "nat \<Rightarrow> jsnum \<Rightarrow> rat \<Rightarrow> engine \<Rightarrow> scheduled_note option" where
  "scheduleNote beatNumber t now s =
     (if \<not> audioCtx s then None
      else
        let acc = isAccent beatNumber (beatsPerMeasure s) in
        Some \<lparr> beat = beatNumber, time = t, accent = acc,
               snd_out = render (profile s) acc (customAccentBuffer s) (customBeatBuffer s),
               handedAt = now,
               notify = (case onBeat s of
                           Some cb \<Rightarrow> Some (beatNumber, notify_delay t now)
                         | None \<Rightarrow> None) \<rparr>)"

definition nextNote :: "engine \<Rightarrow> engine" where
  "nextNote s =
     (let secondsPerBeat = js_div 60 (bpm s) in
      s\<lparr>nextNoteTime := js_add (nextNoteTime s) secondsPerBeat,
        currentBeat := currentBeat s + 1\<rparr>)"

definition emitted :: "scheduled_note option \<Rightarrow> scheduled_note list" where
  "emitted r = (case r of Some n \<Rightarrow> [n] | None \<Rightarrow> [])"

text \<open>
  The \<open>while\<close> loop of \<open>scheduler\<close>. It need not terminate, so it is a partial function:
  \<open>None\<close> means that the loop runs forever.
\<close>

partial_function (option) scheduler_loop ::
  "rat \<Rightarrow> engine \<Rightarrow> scheduled_note list \<Rightarrow> (engine \<times> scheduled_note list) option" where
  "scheduler_loop now s out =
     (if js_less (nextNoteTime s) (Fin (now + scheduleAheadTime))
      then scheduler_loop now (nextNote s)
             (out @ emitted (scheduleNote (currentBeat s) (nextNoteTime s) now s))
      else Some (s, out))"

declare scheduler_loop.simps [code]

text \<open>
  \<open>window.setTimeout(() => this.scheduler(), delay)\<close>: a new handle, remembered as
  pending. The delay is a lower bound that the host may exceed; it plays no part here.
\<close>

definition setTimeout :: "rat \<Rightarrow> engine \<Rightarrow> nat \<times> engine" where
  "setTimeout delay s = (fresh s, s\<lparr>pending := pending s @ [fresh s], fresh := fresh s + 1\<rparr>)"

definition clearTimeout :: "nat \<Rightarrow> engine \<Rightarrow> engine" where
  "clearTimeout i s = s\<lparr>pending := removeAll i (pending s)\<rparr>"

definition scheduler :: "rat \<Rightarrow> engine \<Rightarrow> (engine \<times> scheduled_note list) option" where
  "scheduler now s =
     (if \<not> audioCtx s then Some (s, [])
      else case scheduler_loop now s [] of
             None \<Rightarrow> None
           | Some (s1, out) \<Rightarrow>
               (let (i, s2) = setTimeout lookahead s1 in Some (s2\<lparr>timerID := Some i\<rparr>, out)))"

definition start :: "rat \<Rightarrow> engine \<Rightarrow> (engine \<times> scheduled_note list) option" where
  "start now s0 =
     (let s1 = initAudio s0;
          s2 = s1\<lparr>currentBeat := 0\<rparr>;
          s3 = s2\<lparr>nextNoteTime := Fin (now + 5 / 100)\<rparr>
      in scheduler now s3)"

text \<open>\<open>if (this.timerID)\<close>: a handle is truthy when it is neither \<open>null\<close> nor \<open>0\<close>.\<close>

definition stop :: "engine \<Rightarrow> engine" where
  "stop s =
     (let s1 = (case timerID s of
                  Some i \<Rightarrow> if i \<noteq> 0 then (clearTimeout i s)\<lparr>timerID := None\<rparr> else s
                | None \<Rightarrow> s)
      in s1\<lparr>currentBeat := 0\<rparr>)"

subsection \<open>The event loop\<close>

text \<open>
  The calls the engine receives: its four public methods, and the host running a poll
  task (\<open>Timeout i now\<close>: the task with handle \<open>i\<close> runs when the clock reads \<open>now\<close>;
  a handle that is not pending runs nothing).
\<close>

datatype event =
    Start rat
  | Stop
  | Timeout nat rat
  | SetParams rat int SoundProfile "callback option"
  | SetCustomSounds "string option" "string option"

fun step ::
  "(string \<Rightarrow> string + AudioBuffer) \<Rightarrow> engine \<Rightarrow> event \<Rightarrow> (engine \<times> scheduled_note list) option" where
  "step dec s (Start now) = start now s"
| "step dec s Stop = Some (stop s, [])"
| "step dec s (Timeout i now) =
     (if i \<in> set (pending s) then scheduler now (s\<lparr>pending := removeAll i (pending s)\<rparr>)
      else Some (s, []))"
| "step dec s (SetParams b m p cb) = Some (setParams b m p cb s, [])"
| "step dec s (SetCustomSounds a b) = Some (setCustomSounds dec a b s, [])"

fun run ::
  "(string \<Rightarrow> string + AudioBuffer) \<Rightarrow> engine \<Rightarrow> event list \<Rightarrow> (engine \<times> scheduled_note list) option" where
  "run dec s [] = Some (s, [])"
| "run dec s (e # es) =
     (case step dec s e of
        None \<Rightarrow> None
      | Some (s1, out1) \<Rightarrow>
          (case run dec s1 es of
             None \<Rightarrow> None
           | Some (s2, out2) \<Rightarrow> Some (s2, out1 @ out2)))"

subsection \<open>Runs\<close>

text \<open>
  The events of a run after its \<open>start\<close> that leave the tempo at \<open>T\<close>: polls, parameter
  changes that pass \<open>T\<close> again, and new custom sounds. A \<open>stop\<close> or another \<open>start\<close> ends
  the run.
\<close>

fun keeps_tempo :: "rat \<Rightarrow> event \<Rightarrow> bool" where
  "keeps_tempo T (Start now) = False"
| "keeps_tempo T Stop = False"
| "keeps_tempo T (Timeout i now) = True"
| "keeps_tempo T (SetParams b m p cb) = (b = T)"
| "keeps_tempo T (SetCustomSounds a b) = True"

text \<open>Notes with consecutive beat indices from \<open>k\<close>, at times \<open>x\<close>, \<open>x + d\<close>, \<open>x + 2d\<close>, ...\<close>

definition evenly :: "nat \<Rightarrow> rat \<Rightarrow> rat \<Rightarrow> scheduled_note list \<Rightarrow> bool" where
  "evenly k x d out =
     (\<forall>j<length out. beat (out ! j) = k + j \<and> time (out ! j) = Fin (x + of_nat j * d))"





subsection \<open>Example states\<close>

text \<open>
  The caller's "accent off" (src/App.tsx, \<open>updateEngine\<close>): \<open>setParams\<close> receives
  \<open>accentOn ? activeSignature.beats : 99999\<close> as \<open>beatsPerMeasure\<close>.
\<close>

definition accent_off :: int where
  "accent_off = 99999"


subsection \<open>Invariants\<close>

text \<open>
  The state in the middle of a run at tempo \<open>T\<close>: the next note to schedule has beat index
  \<open>k\<close> and target time \<open>x\<close>.
\<close>

definition in_phase :: "rat \<Rightarrow> nat \<Rightarrow> rat \<Rightarrow> engine \<Rightarrow> bool" where
  "in_phase T k x s \<longleftrightarrow> audioCtx s \<and> bpm s = T \<and> currentBeat s = k \<and> nextNoteTime s = Fin x"

text \<open>The number of iterations of the loop of \<open>scheduler\<close> when every beat lasts \<open>d > 0\<close>.\<close>

definition iters :: "rat \<Rightarrow> rat \<Rightarrow> rat \<Rightarrow> nat" where
  "iters now x d = nat \<lceil>(now + scheduleAheadTime - x) / d\<rceil>"




section \<open>Accents\<close>

lemma js_rem_zero_iff:
  "m \<noteq> 0 \<Longrightarrow> js_rem (int k) m = Some 0 \<longleftrightarrow> int k mod m = 0"
  by (auto simp add: js_rem_def signed_modulo_int_def mod_eq_0_iff_dvd)

text \<open>
  C2. For every \<open>beatsPerMeasure\<close> B \<ge> 1 and every beat index k, the note rendered for
  index k is flagged as an accent if and only if k mod B = 0.
\<close>

theorem accent_iff_mod:
  assumes "1 \<le> beatsPerMeasure s" and "audioCtx s"
  shows "\<exists>n. scheduleNote k t now s = Some n \<and> beat n = k
           \<and> (accent n \<longleftrightarrow> int k mod beatsPerMeasure s = 0)"
proof -
  have "beatsPerMeasure s \<noteq> 0" using assms(1) by simp
  then have "isAccent k (beatsPerMeasure s) \<longleftrightarrow> int k mod beatsPerMeasure s = 0"
    unfolding isAccent_def by (rule js_rem_zero_iff)
  then show ?thesis using assms(2) by (simp add: scheduleNote_def Let_def)
qed

theorem accent_iff_mod_witness:
  "1 \<le> beatsPerMeasure (initAudio init) \<and> audioCtx (initAudio init)
   \<and> (\<exists>n. scheduleNote 8 (Fin 0) 0 (initAudio init) = Some n \<and> beat n = 8
           \<and> (accent n \<longleftrightarrow> int 8 mod beatsPerMeasure (initAudio init) = 0))"
  using accent_iff_mod [of "initAudio init" 8 "Fin 0" 0]
  by (simp add: init_def initAudio_def)

text \<open>
  C3. With \<open>beatsPerMeasure\<close> set to the sentinel 99999 no beat of the run should be
  flagged as an accent, beat 0 included. The code flags beat 0: \<open>0 % 99999 === 0\<close>.
  The first note of a run started with the sentinel is an accent and sounds the accent
  tone of the Digital profile.
\<close>

theorem accent_off_first_beat:
  "map_option (\<lambda>(s, out). map (\<lambda>n. (beat n, accent n, snd_out n)) out)
     (run (\<lambda>_. Inl []) init [SetParams 100 accent_off DIGITAL None, Start 0])
   = Some [(0, True, DigitalTone 1000)]"
  by code_simp

section \<open>The Custom profile\<close>



text \<open>
  C8. When decoding a supplied sound datum fails, \<open>setCustomSounds\<close> still returns a state
  (nothing is raised: the exception ends in the \<open>catch\<close> of \<open>decodeBase64\<close>), the
  failure is on the console, the corresponding buffer is \<open>null\<close>, and a later beat of the
  Custom profile that needs this buffer is rendered by \<open>playDigital\<close>.
\<close>

theorem decode_failure_recovered:
  "(truthy accentData = Some d \<and> dec d = Inl e \<longrightarrow>
      customAccentBuffer (setCustomSounds dec accentData beatData s) = None
      \<and> (''Failed to decode custom sound'', e)
            \<in> set (console (setCustomSounds dec accentData beatData s))
      \<and> (profile s = CUSTOM \<and> isAccent k (beatsPerMeasure s) \<longrightarrow>
           map_option snd_out (scheduleNote k t now (setCustomSounds dec accentData beatData s))
             = Some (playDigital True)))
   \<and> (truthy beatData = Some d \<and> dec d = Inl e \<longrightarrow>
      customBeatBuffer (setCustomSounds dec accentData beatData s) = None
      \<and> (''Failed to decode custom sound'', e)
            \<in> set (console (setCustomSounds dec accentData beatData s))
      \<and> (profile s = CUSTOM \<and> \<not> isAccent k (beatsPerMeasure s) \<longrightarrow>
           map_option snd_out (scheduleNote k t now (setCustomSounds dec accentData beatData s))
             = Some (playDigital False)))"
  by (auto simp add: setCustomSounds_def decodeBase64_def initAudio_def Let_def scheduleNote_def
       split: option.splits prod.splits sum.splits)

theorem decode_failure_recovered_witness:
  "truthy (Some ''x'') = Some ''x''
   \<and> (\<lambda>_. Inl ''bad'') ''x'' = (Inl ''bad'' :: string + AudioBuffer)
   \<and> customAccentBuffer (setCustomSounds (\<lambda>_. Inl ''bad'') (Some ''x'') None init) = None
   \<and> console (setCustomSounds (\<lambda>_. Inl ''bad'') (Some ''x'') None init)
       = [(''Failed to decode custom sound'', ''bad'')]"
  using decode_failure_recovered
    [of "Some ''x''" "''x''" "\<lambda>_. Inl ''bad''" "''bad''" None init 0 "Fin 0" 0]
  by (simp add: setCustomSounds_def decodeBase64_def initAudio_def init_def)

section \<open>Start and stop\<close>


section \<open>The scheduler\<close>

subsection \<open>The loop under a positive tempo\<close>

lemma nextNote_fields [simp]:
  "audioCtx (nextNote s) = audioCtx s"
  "bpm (nextNote s) = bpm s"
  "beatsPerMeasure (nextNote s) = beatsPerMeasure s"
  "profile (nextNote s) = profile s"
  "onBeat (nextNote s) = onBeat s"
  "customAccentBuffer (nextNote s) = customAccentBuffer s"
  "customBeatBuffer (nextNote s) = customBeatBuffer s"
  "timerID (nextNote s) = timerID s"
  "pending (nextNote s) = pending s"
  "fresh (nextNote s) = fresh s"
  "console (nextNote s) = console s"
  "currentBeat (nextNote s) = Suc (currentBeat s)"
  by (simp_all add: nextNote_def)

lemma nextNote_time:
  "bpm s \<noteq> 0 \<Longrightarrow> nextNoteTime s = Fin x \<Longrightarrow> nextNoteTime (nextNote s) = Fin (x + 60 / bpm s)"
  by (simp add: nextNote_def js_div_def)

lemma scheduleNote_nextNote [simp]:
  "scheduleNote k t now (nextNote s) = scheduleNote k t now s"
  by (simp add: scheduleNote_def)

lemma iters_step:
  assumes "0 < d" and "x < now + scheduleAheadTime"
  shows "iters now x d = Suc (iters now (x + d) d)"
proof -
  have "(now + scheduleAheadTime - x) / d = (now + scheduleAheadTime - (x + d)) / d + 1"
    using assms(1) by (simp add: field_simps)
  moreover have "0 < (now + scheduleAheadTime - x) / d" using assms by simp
  ultimately have "\<lceil>(now + scheduleAheadTime - x) / d\<rceil>
      = \<lceil>(now + scheduleAheadTime - (x + d)) / d\<rceil> + 1"
    and "0 < \<lceil>(now + scheduleAheadTime - x) / d\<rceil>"
    by simp_all
  then show ?thesis unfolding iters_def by linarith
qed

lemma iters_done:
  assumes "0 < d" and "\<not> x < now + scheduleAheadTime"
  shows "iters now x d = 0"
proof -
  have "(now + scheduleAheadTime - x) / d \<le> 0"
    using assms by (simp add: divide_le_0_iff)
  then show ?thesis unfolding iters_def by (simp add: ceiling_le_zero)
qed

lemma loop_pos:
  assumes "0 < bpm s" and "nextNoteTime s = Fin x"
  shows "\<exists>m. scheduler_loop now s out =
           Some (s\<lparr>nextNoteTime := Fin (x + of_nat m * (60 / bpm s)),
                   currentBeat := currentBeat s + m\<rparr>,
                 out @ concat (map (\<lambda>j. emitted (scheduleNote (currentBeat s + j)
                                   (Fin (x + of_nat j * (60 / bpm s))) now s)) [0..<m]))
         \<and> now + scheduleAheadTime \<le> x + of_nat m * (60 / bpm s)"
  using assms
proof (induction n \<equiv> "iters now x (60 / bpm s)" arbitrary: s x out)
  case 0
  have d: "0 < 60 / bpm s" using 0 by simp
  have "\<not> x < now + scheduleAheadTime"
  proof
    assume "x < now + scheduleAheadTime"
    from iters_step [OF d this] 0(1) show False by simp
  qed
  then have "scheduler_loop now s out = Some (s, out)"
    using 0 by (subst scheduler_loop.simps) simp
  moreover have "s\<lparr>nextNoteTime := Fin (x + of_nat 0 * (60 / bpm s)), currentBeat := currentBeat s + 0\<rparr> = s"
    using 0 by simp
  ultimately show ?case using \<open>\<not> x < now + scheduleAheadTime\<close>
    by (intro exI [of _ 0]) simp
next
  case (Suc n)
  define d where "d = 60 / bpm s"
  define k where "k = currentBeat s"
  define out1 where "out1 = out @ emitted (scheduleNote k (Fin x) now s)"
  have d: "0 < d" using Suc by (simp add: d_def)
  have lt: "x < now + scheduleAheadTime"
  proof (rule ccontr)
    assume "\<not> x < now + scheduleAheadTime"
    from iters_done [OF d this] Suc(2) show False by (simp add: d_def)
  qed
  have n: "n = iters now (x + d) (60 / bpm (nextNote s))"
    using iters_step [OF d lt] Suc(2) by (simp add: d_def)
  have t: "nextNoteTime (nextNote s) = Fin (x + d)"
    using Suc by (simp add: nextNote_time d_def)
  have b: "0 < bpm (nextNote s)" using Suc by simp
  from Suc(1) [OF n b t, of out1]
  obtain m where m:
    "scheduler_loop now (nextNote s) out1 =
       Some ((nextNote s)\<lparr>nextNoteTime := Fin (x + d + of_nat m * d),
                           currentBeat := Suc k + m\<rparr>,
             out1 @ concat (map (\<lambda>j. emitted (scheduleNote (Suc k + j)
                                   (Fin (x + d + of_nat j * d)) now s)) [0..<m]))"
    and fin: "now + scheduleAheadTime \<le> x + d + of_nat m * d"
    by (auto simp add: d_def k_def)
  have unf: "scheduler_loop now s out = scheduler_loop now (nextNote s) out1"
    using lt Suc(4) by (subst scheduler_loop.simps) (simp add: out1_def k_def)
  have ar: "x + d + of_nat j * d = x + of_nat (Suc j) * d" for j
    by (simp add: algebra_simps)
  have st: "(nextNote s)\<lparr>nextNoteTime := Fin (x + d + of_nat m * d), currentBeat := Suc k + m\<rparr>
        = s\<lparr>nextNoteTime := Fin (x + of_nat (Suc m) * d), currentBeat := k + Suc m\<rparr>"
    unfolding ar by (simp add: nextNote_def)
  have ls: "concat (map (\<lambda>j. emitted (scheduleNote (k + j) (Fin (x + of_nat j * d)) now s)) [0..<Suc m])
     = emitted (scheduleNote k (Fin x) now s)
       @ concat (map (\<lambda>j. emitted (scheduleNote (Suc k + j) (Fin (x + d + of_nat j * d)) now s)) [0..<m])"
    unfolding ar by (simp only: map_upt_Suc) simp
  have "scheduler_loop now s out =
           Some (s\<lparr>nextNoteTime := Fin (x + of_nat (Suc m) * d), currentBeat := k + Suc m\<rparr>,
                 out @ concat (map (\<lambda>j. emitted (scheduleNote (k + j)
                                   (Fin (x + of_nat j * d)) now s)) [0..<Suc m]))"
    unfolding unf m st ls by (simp add: out1_def)
  moreover have "now + scheduleAheadTime \<le> x + of_nat (Suc m) * d"
    using fin unfolding ar .
  ultimately show ?case unfolding d_def k_def by blast
qed


lemma loop_returns:
  assumes "0 < bpm s"
  shows "\<exists>r. scheduler_loop now s out = Some r"
proof (cases "nextNoteTime s")
  case (Fin x)
  from loop_pos [OF assms Fin] show ?thesis by blast
next
  case PosInf
  then show ?thesis by (subst scheduler_loop.simps) simp
qed

lemma loop_diverges:
  assumes "scheduler_loop now s out = Some r"
  shows "\<not> (bpm s < 0 \<and> js_less (nextNoteTime s) (Fin (now + scheduleAheadTime)))"
proof (rule scheduler_loop.raw_induct
    [where P = "\<lambda>now s out r. \<not> (bpm s < 0 \<and> js_less (nextNoteTime s) (Fin (now + scheduleAheadTime)))",
     OF _ assms])
  fix f :: "rat \<Rightarrow> engine \<Rightarrow> scheduled_note list \<Rightarrow> (engine \<times> scheduled_note list) option"
  fix now s out r
  assume IH: "\<And>now s out r. f now s out = Some r \<Longrightarrow>
      \<not> (bpm s < 0 \<and> js_less (nextNoteTime s) (Fin (now + scheduleAheadTime)))"
  assume eq: "(if js_less (nextNoteTime s) (Fin (now + scheduleAheadTime))
      then f now (nextNote s) (out @ emitted (scheduleNote (currentBeat s) (nextNoteTime s) now s))
      else Some (s, out)) = Some r"
  show "\<not> (bpm s < 0 \<and> js_less (nextNoteTime s) (Fin (now + scheduleAheadTime)))"
  proof
    assume a: "bpm s < 0 \<and> js_less (nextNoteTime s) (Fin (now + scheduleAheadTime))"
    then obtain x where x: "nextNoteTime s = Fin x" "x < now + scheduleAheadTime"
      by (cases "nextNoteTime s") auto
    from a eq have "f now (nextNote s)
        (out @ emitted (scheduleNote (currentBeat s) (nextNoteTime s) now s)) = Some r"
      by simp
    from IH [OF this] have "\<not> js_less (nextNoteTime (nextNote s)) (Fin (now + scheduleAheadTime))"
      using a by simp
    moreover have "nextNoteTime (nextNote s) = Fin (x + 60 / bpm s)"
      using a x by (simp add: nextNote_time)
    moreover have "60 / bpm s < 0" using a by (simp add: divide_less_0_iff)
    ultimately show False using x by simp
  qed
qed

subsection \<open>Evenly spaced notes\<close>

lemma emitted_the:
  "audioCtx s \<Longrightarrow> emitted (scheduleNote k t now s) = [the (scheduleNote k t now s)]"
  by (simp add: emitted_def scheduleNote_def Let_def)

lemma the_scheduleNote [simp]:
  "audioCtx s \<Longrightarrow> beat (the (scheduleNote k t now s)) = k"
  "audioCtx s \<Longrightarrow> time (the (scheduleNote k t now s)) = t"
  "audioCtx s \<Longrightarrow> handedAt (the (scheduleNote k t now s)) = now"
  by (simp_all add: scheduleNote_def Let_def)

lemma concat_singletons: "concat (map (\<lambda>j. [f j]) xs) = map f xs"
  by (induction xs) simp_all

lemma loop_pos_ctx:
  assumes "audioCtx s" and "0 < bpm s" and "nextNoteTime s = Fin x"
  shows "\<exists>m. scheduler_loop now s out =
           Some (s\<lparr>nextNoteTime := Fin (x + of_nat m * (60 / bpm s)),
                   currentBeat := currentBeat s + m\<rparr>,
                 out @ map (\<lambda>j. the (scheduleNote (currentBeat s + j)
                                   (Fin (x + of_nat j * (60 / bpm s))) now s)) [0..<m])
         \<and> now + scheduleAheadTime \<le> x + of_nat m * (60 / bpm s)"
  using loop_pos [OF assms(2,3), of now out]
  by (simp add: emitted_the [OF assms(1)] concat_singletons)

lemma evenly_block:
  assumes "audioCtx s"
  shows "evenly k x d (map (\<lambda>j. the (scheduleNote (k + j) (Fin (x + of_nat j * d)) now s)) [0..<m])"
  using assms by (simp add: evenly_def)

lemma phase_add: "x + of_nat a * d + of_nat b * d = x + of_nat (a + b) * (d::rat)"
  by (simp add: algebra_simps)

lemma evenly_append:
  assumes "evenly k x d a" and "evenly (k + length a) (x + of_nat (length a) * d) d b"
  shows "evenly k x d (a @ b)"
  unfolding evenly_def
proof (intro allI impI)
  fix j assume j: "j < length (a @ b)"
  show "beat ((a @ b) ! j) = k + j \<and> time ((a @ b) ! j) = Fin (x + of_nat j * d)"
  proof (cases "j < length a")
    case True
    then show ?thesis using assms(1) by (simp add: evenly_def nth_append)
  next
    case False
    then have jb: "j - length a < length b" using j by simp
    have ar: "x + of_nat (length a) * d + of_nat (j - length a) * d = x + of_nat j * d"
    proof -
      have "of_nat (length a) + of_nat (j - length a) = (of_nat j :: rat)"
        using False by (simp flip: of_nat_add)
      then show ?thesis by (metis add.assoc distrib_right)
    qed
    from assms(2) jb have "beat (b ! (j - length a)) = k + length a + (j - length a)
        \<and> time (b ! (j - length a)) = Fin (x + of_nat (length a) * d + of_nat (j - length a) * d)"
      unfolding evenly_def by blast
    then show ?thesis using False ar by (simp add: nth_append)
  qed
qed

lemma scheduler_in_phase:
  assumes "in_phase T k x s" and "0 < T"
  shows "\<exists>s' out. scheduler now s = Some (s', out) \<and> evenly k x (60 / T) out
           \<and> in_phase T (k + length out) (x + of_nat (length out) * (60 / T)) s'
           \<and> (\<forall>n\<in>set out. handedAt n = now)
           \<and> now + scheduleAheadTime \<le> x + of_nat (length out) * (60 / T)"
proof -
  from assms have a: "audioCtx s" "0 < bpm s" "nextNoteTime s = Fin x" "bpm s = T" "currentBeat s = k"
    by (simp_all add: in_phase_def)
  from loop_pos_ctx [OF a(1,2,3), of now "[]"] obtain m where
    m: "scheduler_loop now s [] =
           Some (s\<lparr>nextNoteTime := Fin (x + of_nat m * (60 / T)), currentBeat := k + m\<rparr>,
                 map (\<lambda>j. the (scheduleNote (k + j) (Fin (x + of_nat j * (60 / T))) now s)) [0..<m])"
    and fin: "now + scheduleAheadTime \<le> x + of_nat m * (60 / T)"
    using a by auto
  let ?out = "map (\<lambda>j. the (scheduleNote (k + j) (Fin (x + of_nat j * (60 / T))) now s)) [0..<m]"
  have "\<exists>s'. scheduler now s = Some (s', ?out) \<and> in_phase T (k + m) (x + of_nat m * (60 / T)) s'"
    using a m by (simp add: scheduler_def setTimeout_def in_phase_def)
  moreover have "evenly k x (60 / T) ?out" using a(1) by (rule evenly_block)
  moreover have "\<forall>n\<in>set ?out. handedAt n = now" using a(1) by simp
  moreover have "length ?out = m" by simp
  ultimately show ?thesis using fin by (metis (no_types, lifting))
qed

lemma run_in_phase:
  assumes "0 < T" and "in_phase T k x s" and "list_all (keeps_tempo T) evs"
  shows "\<exists>s' out. run dec s evs = Some (s', out) \<and> evenly k x (60 / T) out
           \<and> in_phase T (k + length out) (x + of_nat (length out) * (60 / T)) s'"
  using assms(2,3)
proof (induction evs arbitrary: s k x)
  case Nil
  then show ?case by (simp add: evenly_def)
next
  case (Cons e evs)
  have "\<exists>s1 out1. step dec s e = Some (s1, out1) \<and> evenly k x (60 / T) out1
           \<and> in_phase T (k + length out1) (x + of_nat (length out1) * (60 / T)) s1"
  proof (cases e)
    case (Timeout i now)
    show ?thesis
    proof (cases "i \<in> set (pending s)")
      case True
      have "in_phase T k x (s\<lparr>pending := removeAll i (pending s)\<rparr>)"
        using Cons.prems(1) by (simp add: in_phase_def)
      from scheduler_in_phase [OF this assms(1), of now] show ?thesis
        using True Timeout by auto
    next
      case False
      then show ?thesis using Timeout Cons.prems(1) by (simp add: evenly_def)
    qed
  next
    case (SetParams b m p cb)
    then show ?thesis using Cons.prems by (simp add: evenly_def in_phase_def setParams_def)
  next
    case (SetCustomSounds a b)
    have "in_phase T k x (setCustomSounds dec a b s)"
      using Cons.prems(1)
      by (auto simp add: in_phase_def setCustomSounds_def initAudio_def decodeBase64_def Let_def
          split: option.splits sum.splits)
    then show ?thesis using SetCustomSounds by (simp add: evenly_def)
  qed (use Cons.prems in simp_all)
  then obtain s1 out1 where 1: "step dec s e = Some (s1, out1)" "evenly k x (60 / T) out1"
    "in_phase T (k + length out1) (x + of_nat (length out1) * (60 / T)) s1" by blast
  from Cons.IH [OF 1(3)] Cons.prems(2) obtain s2 out2 where
    2: "run dec s1 evs = Some (s2, out2)"
       "evenly (k + length out1) (x + of_nat (length out1) * (60 / T)) (60 / T) out2"
       "in_phase T (k + length out1 + length out2)
          (x + of_nat (length out1) * (60 / T) + of_nat (length out2) * (60 / T)) s2"
    by auto
  have "run dec s (e # evs) = Some (s2, out1 @ out2)" using 1(1) 2(1) by simp
  moreover have "evenly k x (60 / T) (out1 @ out2)" using 1(2) 2(2) by (rule evenly_append)
  moreover have "in_phase T (k + length (out1 @ out2))
      (x + of_nat (length (out1 @ out2)) * (60 / T)) s2"
  proof -
    have kk: "k + length (out1 @ out2) = k + length out1 + length out2" by simp
    have ar: "x + of_nat (length (out1 @ out2)) * (60 / T)
        = x + of_nat (length out1) * (60 / T) + of_nat (length out2) * (60 / T)"
      by (simp only: length_append phase_add)
    show ?thesis unfolding kk ar by (rule 2(3))
  qed
  ultimately show ?case by blast
qed


lemma start_in_phase:
  assumes "0 < bpm s"
  shows "\<exists>s' out. start now s = Some (s', out) \<and> out \<noteq> []
           \<and> evenly 0 (now + 5 / 100) (60 / bpm s) out
           \<and> in_phase (bpm s) (length out) (now + 5 / 100 + of_nat (length out) * (60 / bpm s)) s'
           \<and> (\<forall>n\<in>set out. handedAt n = now)
           \<and> now + scheduleAheadTime \<le> now + 5 / 100 + of_nat (length out) * (60 / bpm s)"
proof -
  let ?s3 = "(initAudio s)\<lparr>currentBeat := 0, nextNoteTime := Fin (now + 5 / 100)\<rparr>"
  have ph: "in_phase (bpm s) 0 (now + 5 / 100) ?s3"
    by (simp add: in_phase_def initAudio_def)
  from scheduler_in_phase [OF ph assms, of now] obtain s' out where
    r: "scheduler now ?s3 = Some (s', out)" "evenly 0 (now + 5 / 100) (60 / bpm s) out"
       "in_phase (bpm s) (length out) (now + 5 / 100 + of_nat (length out) * (60 / bpm s)) s'"
       "\<forall>n\<in>set out. handedAt n = now"
       "now + scheduleAheadTime \<le> now + 5 / 100 + of_nat (length out) * (60 / bpm s)"
    by auto
  have "out \<noteq> []" using r(5) by (auto simp add: scheduleAheadTime_def)
  moreover have "start now s = Some (s', out)" using r(1) by (simp add: start_def Let_def)
  ultimately show ?thesis using r(2,3,4,5) by blast
qed

lemma start_run_in_phase:
  assumes "0 < T" and "bpm s = T" and "list_all (keeps_tempo T) evs"
  shows "\<exists>s' out. run dec s (Start now # evs) = Some (s', out) \<and> out \<noteq> []
           \<and> evenly 0 (now + 5 / 100) (60 / T) out
           \<and> in_phase T (length out) (now + 5 / 100 + of_nat (length out) * (60 / T)) s'"
proof -
  from start_in_phase [of s now] assms(1,2) obtain s1 out1 where
    1: "start now s = Some (s1, out1)" "out1 \<noteq> []" "evenly 0 (now + 5 / 100) (60 / T) out1"
       "in_phase T (length out1) (now + 5 / 100 + of_nat (length out1) * (60 / T)) s1"
    by auto
  from run_in_phase [OF assms(1) 1(4) assms(3), of dec] obtain s2 out2 where
    2: "run dec s1 evs = Some (s2, out2)"
       "evenly (length out1) (now + 5 / 100 + of_nat (length out1) * (60 / T)) (60 / T) out2"
       "in_phase T (length out1 + length out2)
          (now + 5 / 100 + of_nat (length out1) * (60 / T) + of_nat (length out2) * (60 / T)) s2"
    by auto
  have "run dec s (Start now # evs) = Some (s2, out1 @ out2)" using 1(1) 2(1) by simp
  moreover have "evenly 0 (now + 5 / 100) (60 / T) (out1 @ out2)"
    using 1(3) 2(2) by (intro evenly_append) simp_all
  moreover have "in_phase T (length (out1 @ out2))
      (now + 5 / 100 + of_nat (length (out1 @ out2)) * (60 / T)) s2"
    using 2(3) by (simp only: length_append phase_add)
  ultimately show ?thesis using 1(2) by (metis (no_types, lifting) append_is_Nil_conv)
qed

subsection \<open>Termination of a poll\<close>

text \<open>
  C9. For every poll the loop of \<open>scheduler\<close> terminates when the stored tempo is
  strictly positive: it returns after some number \<open>k\<close> of iterations, each of which
  adds \<open>60 / bpm\<close> to \<open>nextNoteTime\<close>, with \<open>nextNoteTime\<close> at or beyond the clock
  reading plus the schedule-ahead window. \<open>setParams\<close> stores whatever tempo it is given,
  and under a negative tempo a poll that enters the loop never leaves it.
\<close>

theorem scheduler_terminates:
  "(0 < bpm s \<longrightarrow>
      (\<exists>r. scheduler_loop now s out = Some r) \<and> (\<exists>r. scheduler now s = Some r))
   \<and> (0 < bpm s \<and> nextNoteTime s = Fin x \<longrightarrow>
        (\<exists>k s' out'. scheduler_loop now s out = Some (s', out')
           \<and> nextNoteTime s' = Fin (x + of_nat k * (60 / bpm s))
           \<and> currentBeat s' = currentBeat s + k
           \<and> now + scheduleAheadTime \<le> x + of_nat k * (60 / bpm s)))
   \<and> bpm (setParams b m p cb s) = b
   \<and> (bpm s < 0 \<and> js_less (nextNoteTime s) (Fin (now + scheduleAheadTime)) \<longrightarrow>
        scheduler_loop now s out = None)"
proof (intro conjI impI)
  assume "0 < bpm s"
  then show "\<exists>r. scheduler_loop now s out = Some r" by (rule loop_returns)
next
  assume "0 < bpm s"
  from loop_returns [OF this, of now "[]"] show "\<exists>r. scheduler now s = Some r"
    by (auto simp add: scheduler_def split: prod.splits)
next
  assume a: "0 < bpm s \<and> nextNoteTime s = Fin x"
  then have "0 < bpm s" and "nextNoteTime s = Fin x" by simp_all
  from loop_pos [OF this, of now out] obtain k where
    "scheduler_loop now s out =
       Some (s\<lparr>nextNoteTime := Fin (x + of_nat k * (60 / bpm s)),
               currentBeat := currentBeat s + k\<rparr>,
             out @ concat (map (\<lambda>j. emitted (scheduleNote (currentBeat s + j)
                               (Fin (x + of_nat j * (60 / bpm s))) now s)) [0..<k]))"
    and "now + scheduleAheadTime \<le> x + of_nat k * (60 / bpm s)"
    by blast
  then show "\<exists>k s' out'. scheduler_loop now s out = Some (s', out')
           \<and> nextNoteTime s' = Fin (x + of_nat k * (60 / bpm s))
           \<and> currentBeat s' = currentBeat s + k
           \<and> now + scheduleAheadTime \<le> x + of_nat k * (60 / bpm s)"
    by (intro exI [of _ k]) simp
next
  show "bpm (setParams b m p cb s) = b" by (simp add: setParams_def)
next
  assume "bpm s < 0 \<and> js_less (nextNoteTime s) (Fin (now + scheduleAheadTime))"
  then show "scheduler_loop now s out = None"
    using loop_diverges [of now s out] by (cases "scheduler_loop now s out") auto
qed

theorem scheduler_terminates_witness:
  "0 < bpm init \<and> nextNoteTime init = Fin 0
   \<and> (\<exists>r. scheduler_loop 0 init [] = Some r) \<and> (\<exists>r. scheduler 0 init = Some r)
   \<and> bpm (setParams (- 60) 4 DIGITAL None init) < 0
   \<and> js_less (nextNoteTime (setParams (- 60) 4 DIGITAL None init)) (Fin (0 + scheduleAheadTime))
   \<and> scheduler_loop 0 (setParams (- 60) 4 DIGITAL None init) [] = None"
  using scheduler_terminates [of init 0 "[]" 0]
        scheduler_terminates [of "setParams (- 60) 4 DIGITAL None init" 0 "[]"]
  by (simp add: init_def setParams_def scheduleAheadTime_def)

subsection \<open>A run at a constant tempo\<close>

text \<open>
  C1. In every run in which the tempo is held constant at some T in [1,240], consecutive
  scheduled notes are exactly 60/T seconds apart, and each note's beat index is 1 greater
  than the previous one, starting from 0: the j-th note of the run has beat index j and
  target time \<open>now + 0.05 + j * 60/T\<close>, where \<open>now\<close> is the clock reading at \<open>start\<close>.
\<close>

theorem constant_tempo_run:
  assumes "1 \<le> T" and "T \<le> 240" and "bpm s = T" and "list_all (keeps_tempo T) evs"
  shows "\<exists>s' out. run dec s (Start now # evs) = Some (s', out) \<and> out \<noteq> []
     \<and> (\<forall>j<length out. beat (out ! j) = j
            \<and> time (out ! j) = Fin (now + 5 / 100 + of_nat j * (60 / T)))
     \<and> (\<forall>j. Suc j < length out \<longrightarrow>
            beat (out ! Suc j) = beat (out ! j) + 1
            \<and> time (out ! Suc j) = js_add (time (out ! j)) (Fin (60 / T)))"
proof -
  have "0 < T" using assms(1) by simp
  from start_run_in_phase [OF this assms(3,4), of dec now] obtain s' out where
    r: "run dec s (Start now # evs) = Some (s', out)" "out \<noteq> []"
       "evenly 0 (now + 5 / 100) (60 / T) out"
    by blast
  have a: "\<forall>j<length out. beat (out ! j) = j
            \<and> time (out ! j) = Fin (now + 5 / 100 + of_nat j * (60 / T))"
    using r(3) by (simp add: evenly_def)
  have "\<forall>j. Suc j < length out \<longrightarrow>
            beat (out ! Suc j) = beat (out ! j) + 1
            \<and> time (out ! Suc j) = js_add (time (out ! j)) (Fin (60 / T))"
  proof (intro allI impI)
    fix j assume j: "Suc j < length out"
    then have "j < length out" by simp
    with a j have "beat (out ! j) = j" "beat (out ! Suc j) = Suc j"
      "time (out ! j) = Fin (now + 5 / 100 + of_nat j * (60 / T))"
      "time (out ! Suc j) = Fin (now + 5 / 100 + of_nat (Suc j) * (60 / T))"
      by blast+
    then show "beat (out ! Suc j) = beat (out ! j) + 1
            \<and> time (out ! Suc j) = js_add (time (out ! j)) (Fin (60 / T))"
      by (simp add: algebra_simps add_divide_distrib)
  qed
  with r(1,2) a show ?thesis by blast
qed

theorem constant_tempo_run_witness:
  "(1::rat) \<le> 60 \<and> (60::rat) \<le> 240 \<and> bpm (setParams 60 4 DIGITAL None init) = 60
   \<and> list_all (keeps_tempo 60) [Timeout 1 1, Timeout 2 2]
   \<and> (\<exists>s' out. run (\<lambda>_. Inl []) (setParams 60 4 DIGITAL None init)
                      (Start 0 # [Timeout 1 1, Timeout 2 2]) = Some (s', out) \<and> out \<noteq> []
        \<and> (\<forall>j<length out. beat (out ! j) = j
               \<and> time (out ! j) = Fin (0 + 5 / 100 + of_nat j * (60 / 60)))
        \<and> (\<forall>j. Suc j < length out \<longrightarrow>
               beat (out ! Suc j) = beat (out ! j) + 1
               \<and> time (out ! Suc j) = js_add (time (out ! j)) (Fin (60 / 60))))"
  using constant_tempo_run
    [of 60 "setParams 60 4 DIGITAL None init" "[Timeout 1 1, Timeout 2 2]" "\<lambda>_. Inl []" 0]
  by (simp add: setParams_def)

subsection \<open>A tempo change in the middle of a run\<close>




section \<open>Double start and stop while stopped\<close>









section \<open>No note is scheduled late\<close>










end
